theory Spec2Isabelle
  imports Main "HOL-Library.Sublist"
begin

section \<open>The syntax tree as the rule reads it\<close>

text \<open>
  The rule \<open>await-interactions\<close> (\<open>src/lib/rules/await-interactions.ts\<close>) reads a node in
  two directions and never mixes them: downwards through the fields of a call
  (\<open>expr.callee.object.name\<close>), and upwards through \<open>parent\<close> links
  (\<open>node.parent?.parent\<close>, \<open>getClosestFunctionAncestor\<close>). The downward view is the
  datatype \<open>tsnode\<close>: the type tag and the fields the rule reads. A node handed to a visit
  handler is a \<open>node\<close>: its own \<open>tsnode\<close>, its source range, and its parent, again a
  \<open>node\<close>, or \<open>None\<close> at the root. The parent chain of a parsed file is finite, and so is
  every value of this type.
\<close>

datatype string_literal = StringLiteral (val: string)

datatype tsnode =
    Identifier (name: string)
  | MemberExpression (object: tsnode) (property: tsnode)
  | CallExpression (callee: tsnode) (arguments: "tsnode list")
  | TSNonNullExpression (expression: tsnode)
  | AwaitExpression (argument: tsnode)
  | ImportDeclaration (source: string_literal)
  | ArrowFunctionExpression (async: bool)
  | FunctionExpression (async: bool)
  | FunctionDeclaration (async: bool)
  | ReturnStatement
  | Program
  | Other string
  \<comment> \<open>\<open>Other t\<close>: a node of any type \<open>t\<close> that the rule has no predicate for
      (a block, an expression statement, a literal, ...).\<close>

datatype node = Node (shape: tsnode) (span: "nat \<times> nat") (parent: "node option")

text \<open>What \<open>n.parent\<close> and \<open>n.parent?.parent\<close> give to a type predicate.\<close>

definition parent_shape :: "node \<Rightarrow> tsnode option" where
  "parent_shape n = map_option shape (parent n)"

definition grandparent_shape :: "node \<Rightarrow> tsnode option" where
  "grandparent_shape n =
     (case parent n of None \<Rightarrow> None | Some p \<Rightarrow> map_option shape (parent p))"

subsection \<open>Node predicates\<close>

text \<open>
  Modelled from the spec: the predicates of \<open>src/lib/utils/ast\<close>, which the rule imports
  and which are not among the sources. Section 4.1 of the specification: pure tests of a
  node's kind tag, where the absence of a match (also on an absent node) is a plain
  \<open>False\<close>. An absent node is \<open>None\<close>.
\<close>

fun isIdentifier :: "tsnode option \<Rightarrow> bool" where
  "isIdentifier (Some (Identifier _)) = True"
| "isIdentifier _ = False"

fun isMemberExpression :: "tsnode option \<Rightarrow> bool" where
  "isMemberExpression (Some (MemberExpression _ _)) = True"
| "isMemberExpression _ = False"

fun isCallExpression :: "tsnode option \<Rightarrow> bool" where
  "isCallExpression (Some (CallExpression _ _)) = True"
| "isCallExpression _ = False"

fun isTSNonNullExpression :: "tsnode option \<Rightarrow> bool" where
  "isTSNonNullExpression (Some (TSNonNullExpression _)) = True"
| "isTSNonNullExpression _ = False"

fun isAwaitExpression :: "tsnode option \<Rightarrow> bool" where
  "isAwaitExpression (Some (AwaitExpression _)) = True"
| "isAwaitExpression _ = False"

fun isArrowFunctionExpression :: "tsnode option \<Rightarrow> bool" where
  "isArrowFunctionExpression (Some (ArrowFunctionExpression _)) = True"
| "isArrowFunctionExpression _ = False"

fun isFunctionExpression :: "tsnode option \<Rightarrow> bool" where
  "isFunctionExpression (Some (FunctionExpression _)) = True"
| "isFunctionExpression _ = False"

fun isFunctionDeclaration :: "tsnode option \<Rightarrow> bool" where
  "isFunctionDeclaration (Some (FunctionDeclaration _)) = True"
| "isFunctionDeclaration _ = False"

fun isReturnStatement :: "tsnode option \<Rightarrow> bool" where
  "isReturnStatement (Some ReturnStatement) = True"
| "isReturnStatement _ = False"

fun isProgram :: "tsnode option \<Rightarrow> bool" where
  "isProgram (Some Program) = True"
| "isProgram _ = False"

section \<open>The call classifier\<close>

definition FUNCTIONS_TO_BE_AWAITED :: "string list" where
  "FUNCTIONS_TO_BE_AWAITED =
     [''waitFor'', ''waitForElementToBeRemoved'', ''wait'', ''waitForElement'',
      ''waitForDomChange'', ''userEvent'', ''play'']"

definition shouldAwait :: "string \<Rightarrow> bool" where
  "shouldAwait nm = (nm \<in> set FUNCTIONS_TO_BE_AWAITED \<or> prefix ''findBy'' nm)"

text \<open>
  \<open>getMethodThatShouldBeAwaited\<close> takes a call expression (the visitor hands it
  \<open>CallExpression\<close> nodes only) and tries its five shapes in the order of the source.
  Every field is read behind the predicate that guards it there.
\<close>

definition getMethodThatShouldBeAwaited :: "node \<Rightarrow> tsnode option" where
  "getMethodThatShouldBeAwaited expr =
     (let c = callee (shape expr) in
      if isArrowFunctionExpression (parent_shape expr) \<or> isReturnStatement (parent_shape expr)
      then None
      else if isMemberExpression (Some c) \<and> isIdentifier (Some (object c))
              \<and> shouldAwait (name (object c))
      then Some (object c)
      else if isTSNonNullExpression (Some c) \<and> isMemberExpression (Some (expression c))
              \<and> isIdentifier (Some (property (expression c)))
              \<and> shouldAwait (name (property (expression c)))
      then Some (property (expression c))
      else if isMemberExpression (Some c) \<and> isIdentifier (Some (property c))
              \<and> shouldAwait (name (property c))
      then Some (property c)
      else if isMemberExpression (Some c) \<and> isCallExpression (Some (object c))
              \<and> isIdentifier (Some (callee (object c)))
              \<and> isIdentifier (Some (property c))
              \<and> name (callee (object c)) = ''expect''
      then Some (property c)
      else if isIdentifier (Some c) \<and> shouldAwait (name c)
      then Some c
      else None)"

section \<open>The scope resolver\<close>

fun getClosestFunctionAncestor :: "node \<Rightarrow> node option" where
  "getClosestFunctionAncestor (Node s r None) = None"
| "getClosestFunctionAncestor (Node s r (Some p)) =
     (if isProgram (Some (shape p)) then None
      else if isArrowFunctionExpression (Some (shape p))
              \<or> isFunctionExpression (Some (shape p))
              \<or> isFunctionDeclaration (Some (shape p))
      then Some p
      else getClosestFunctionAncestor p)"

text \<open>
  The specification's words for the same result: the nearest ancestor that is function-like,
  unless the program root comes first on the way up.
\<close>

fun ancestors :: "node \<Rightarrow> node list" where
  "ancestors (Node s r None) = []"
| "ancestors (Node s r (Some p)) = p # ancestors p"

definition isFunctionLike :: "node \<Rightarrow> bool" where
  "isFunctionLike a =
     (isArrowFunctionExpression (Some (shape a)) \<or> isFunctionExpression (Some (shape a))
      \<or> isFunctionDeclaration (Some (shape a)))"

definition nearest_function_ancestor :: "node \<Rightarrow> node option" where
  "nearest_function_ancestor n =
     (case find (\<lambda>a. isProgram (Some (shape a)) \<or> isFunctionLike a) (ancestors n) of
        None \<Rightarrow> None
      | Some a \<Rightarrow> if isProgram (Some (shape a)) then None else Some a)"

section \<open>The traversal controller and the diagnostics\<close>

record invocation =
  inv_node :: node
  inv_method :: tsnode

record rule_state =
  isImportingFromStorybookExpect :: bool
  invocationsThatShouldBeAwaited :: "invocation list"

text \<open>
  A fix function is the list of insertions it returns from the fixer it is given;
  \<open>InsertTextBefore n t\<close> is \<open>fixer.insertTextBefore(n, t)\<close>.
\<close>

datatype rule_fix = InsertTextBefore node string

record suggestion =
  sug_messageId :: string
  sug_fix :: "rule_fix list"

record report =
  rep_node :: node
  rep_messageId :: string
  rep_data_method :: string
  rep_fix :: "rule_fix list"
  rep_suggest :: "suggestion list"

definition isExpectFromStorybookImported :: "node \<Rightarrow> bool" where
  "isExpectFromStorybookImported n = prefix ''@storybook/'' (val (source (shape n)))"

definition initial_state :: rule_state where
  "initial_state =
     \<lparr>isImportingFromStorybookExpect = True, invocationsThatShouldBeAwaited = []\<rparr>"

definition on_ImportDeclaration :: "rule_state \<Rightarrow> node \<Rightarrow> rule_state" where
  "on_ImportDeclaration st n =
     (if \<not> isExpectFromStorybookImported n
      then st\<lparr>isImportingFromStorybookExpect := False\<rparr>
      else st)"

definition on_CallExpression :: "rule_state \<Rightarrow> node \<Rightarrow> rule_state" where
  "on_CallExpression st n =
     (case getMethodThatShouldBeAwaited n of
        None \<Rightarrow> st
      | Some method \<Rightarrow>
          if \<not> isAwaitExpression (parent_shape n) \<and> \<not> isAwaitExpression (grandparent_shape n)
          then st\<lparr>invocationsThatShouldBeAwaited :=
                    invocationsThatShouldBeAwaited st @ [\<lparr>inv_node = n, inv_method = method\<rparr>]\<rparr>
          else st)"

text \<open>\<open>'async' in parentFnNode && parentFnNode.async\<close>\<close>

fun async_flag :: "tsnode \<Rightarrow> bool" where
  "async_flag (ArrowFunctionExpression a) = a"
| "async_flag (FunctionExpression a) = a"
| "async_flag (FunctionDeclaration a) = a"
| "async_flag _ = False"

definition parentFnNeedsAsync :: "node option \<Rightarrow> bool" where
  "parentFnNeedsAsync parentFnNode =
     (case parentFnNode of None \<Rightarrow> False | Some f \<Rightarrow> \<not> async_flag (shape f))"

definition fixFn :: "node \<Rightarrow> node option \<Rightarrow> rule_fix list" where
  "fixFn n parentFnNode =
     InsertTextBefore n ''await '' #
     (case parentFnNode of
        None \<Rightarrow> []
      | Some f \<Rightarrow> if parentFnNeedsAsync parentFnNode then [InsertTextBefore f ''async ''] else [])"

definition report_invocation :: "invocation \<Rightarrow> report" where
  "report_invocation i =
     (let parentFnNode = getClosestFunctionAncestor (inv_node i) in
      \<lparr>rep_node = inv_node i,
       rep_messageId = ''interactionShouldBeAwaited'',
       rep_data_method = name (inv_method i),
       rep_fix = fixFn (inv_node i) parentFnNode,
       rep_suggest = [\<lparr>sug_messageId = ''fixSuggestion'',
                       sug_fix = fixFn (inv_node i) parentFnNode\<rparr>]\<rparr>)"

definition on_Program_exit :: "rule_state \<Rightarrow> report list" where
  "on_Program_exit st =
     (if isImportingFromStorybookExpect st \<and> length (invocationsThatShouldBeAwaited st) \<noteq> 0
      then map report_invocation (invocationsThatShouldBeAwaited st)
      else [])"

text \<open>
  The host engine walks the file and calls the handler registered for each node's type,
  then \<open>Program:exit\<close> once. Its walk is the list of the nodes it visits, in its order.
\<close>

fun visit :: "rule_state \<Rightarrow> node \<Rightarrow> rule_state" where
  "visit st (Node (ImportDeclaration src) r p) = on_ImportDeclaration st (Node (ImportDeclaration src) r p)"
| "visit st (Node (CallExpression c as) r p) = on_CallExpression st (Node (CallExpression c as) r p)"
| "visit st _ = st"

definition traverse :: "node list \<Rightarrow> rule_state" where
  "traverse ns = foldl visit initial_state ns"

definition lint :: "node list \<Rightarrow> report list" where
  "lint ns = on_Program_exit (traverse ns)"

section \<open>Notions used to state the properties\<close>

text \<open>An import statement whose source does not start with \<open>@storybook/\<close>.\<close>

definition disqualifying_import :: "node \<Rightarrow> bool" where
  "disqualifying_import n =
     (case shape n of ImportDeclaration src \<Rightarrow> \<not> prefix ''@storybook/'' (val src) | _ \<Rightarrow> False)"

text \<open>The await test of the \<open>CallExpression\<close> handler, under a name.\<close>

definition awaited :: "node \<Rightarrow> bool" where
  "awaited n = (isAwaitExpression (parent_shape n) \<or> isAwaitExpression (grandparent_shape n))"

text \<open>What the visit of one node adds to the queue.\<close>

definition pending :: "node \<Rightarrow> invocation list" where
  "pending n =
     (if isCallExpression (Some (shape n))
      then (case getMethodThatShouldBeAwaited n of
              None \<Rightarrow> []
            | Some m \<Rightarrow> if awaited n then [] else [\<lparr>inv_node = n, inv_method = m\<rparr>])
      else [])"

text \<open>An insertion of the asynchronous marker.\<close>

fun inserts_async :: "rule_fix \<Rightarrow> bool" where
  "inserts_async (InsertTextBefore n t) = (t = ''async '')"

section \<open>A sample file\<close>

text \<open>
  \<^verbatim>\<open>
  import { userEvent, waitFor, expect } from '@storybook/test'
  const play = () => {
    userEvent.click(button)
    waitFor(() => {})
    expect(button).toBeVisible()
    return canvas.findByRole('button')
  }
  async function check() {
    await userEvent.click(button)
    await act(userEvent.click(button))
    canvas.findByRole('button')
  }
  play()
  import x from 'some-other-lib'
  \<close>
  Each node below is one node of this file with its chain of parents.
\<close>

definition program_root :: node where
  "program_root = Node Program (0, 362) None"

definition storybook_import :: node where
  "storybook_import =
     Node (ImportDeclaration (StringLiteral ''@storybook/test'')) (0, 60) (Some program_root)"

definition other_import :: node where
  "other_import =
     Node (ImportDeclaration (StringLiteral ''some-other-lib'')) (331, 361) (Some program_root)"

definition play_fn :: node where
  "play_fn =
     Node (ArrowFunctionExpression False) (74, 197)
       (Some (Node (Other ''VariableDeclarator'') (67, 197)
         (Some (Node (Other ''VariableDeclaration'') (61, 197) (Some program_root)))))"

definition play_body :: node where
  "play_body = Node (Other ''BlockStatement'') (80, 197) (Some play_fn)"

definition click_shape :: tsnode where
  "click_shape =
     CallExpression (MemberExpression (Identifier ''userEvent'') (Identifier ''click''))
       [Identifier ''button'']"

definition findBy_shape :: tsnode where
  "findBy_shape =
     CallExpression (MemberExpression (Identifier ''canvas'') (Identifier ''findByRole''))
       [Other ''Literal'']"

definition click_call :: node where
  "click_call =
     Node click_shape (84, 107)
       (Some (Node (Other ''ExpressionStatement'') (84, 107) (Some play_body)))"

definition waitFor_call :: node where
  "waitFor_call =
     Node (CallExpression (Identifier ''waitFor'') [ArrowFunctionExpression False]) (110, 127)
       (Some (Node (Other ''ExpressionStatement'') (110, 127) (Some play_body)))"

definition expect_call :: node where
  "expect_call =
     Node (CallExpression
             (MemberExpression (CallExpression (Identifier ''expect'') [Identifier ''button''])
                (Identifier ''toBeVisible''))
             []) (130, 158)
       (Some (Node (Other ''ExpressionStatement'') (130, 158) (Some play_body)))"

definition returned_findBy :: node where
  "returned_findBy =
     Node findBy_shape (168, 195) (Some (Node ReturnStatement (161, 195) (Some play_body)))"

definition check_fn :: node where
  "check_fn = Node (FunctionDeclaration True) (198, 323) (Some program_root)"

definition check_body :: node where
  "check_body = Node (Other ''BlockStatement'') (221, 323) (Some check_fn)"

definition awaited_click :: node where
  "awaited_click =
     Node click_shape (231, 254)
       (Some (Node (AwaitExpression click_shape) (225, 254)
         (Some (Node (Other ''ExpressionStatement'') (225, 254) (Some check_body)))))"

definition act_shape :: tsnode where
  "act_shape = CallExpression (Identifier ''act'') [click_shape]"

definition act_call :: node where
  "act_call =
     Node act_shape (263, 291)
       (Some (Node (AwaitExpression act_shape) (257, 291)
         (Some (Node (Other ''ExpressionStatement'') (257, 291) (Some check_body)))))"

definition nested_click :: node where
  "nested_click = Node click_shape (267, 290) (Some act_call)"

definition findBy_call :: node where
  "findBy_call =
     Node findBy_shape (294, 321)
       (Some (Node (Other ''ExpressionStatement'') (294, 321) (Some check_body)))"

definition toplevel_play :: node where
  "toplevel_play =
     Node (CallExpression (Identifier ''play'') []) (324, 330)
       (Some (Node (Other ''ExpressionStatement'') (324, 330) (Some program_root)))"

text \<open>The walk of the file without its last line, and of the whole file.\<close>

definition sample_walk :: "node list" where
  "sample_walk =
     [program_root, storybook_import, play_fn, play_body, click_call, waitFor_call, expect_call,
      returned_findBy, check_fn, check_body, awaited_click, act_call, nested_click, findBy_call,
      toplevel_play]"

definition gated_walk :: "node list" where
  "gated_walk = sample_walk @ [other_import]"

lemmas sample_defs =
  program_root_def storybook_import_def other_import_def play_fn_def play_body_def
  click_shape_def findBy_shape_def click_call_def waitFor_call_def expect_call_def
  returned_findBy_def check_fn_def check_body_def awaited_click_def act_shape_def act_call_def
  nested_click_def findBy_call_def toplevel_play_def sample_walk_def gated_walk_def

section \<open>A second sample file, before and after its fixes\<close>
























lemmas rule_defs =
  getMethodThatShouldBeAwaited_def shouldAwait_def FUNCTIONS_TO_BE_AWAITED_def parent_shape_def
  grandparent_shape_def on_CallExpression_def on_ImportDeclaration_def
  isExpectFromStorybookImported_def on_Program_exit_def report_invocation_def fixFn_def
  parentFnNeedsAsync_def traverse_def lint_def initial_state_def Let_def

section \<open>Auxiliary facts\<close>

lemma isIdentifier_Some: "isIdentifier (Some x) \<Longrightarrow> \<exists>s. x = Identifier s"
  by (cases x) simp_all

lemma classified_is_identifier:
  "getMethodThatShouldBeAwaited expr = Some m \<Longrightarrow> \<exists>s. m = Identifier s"
  unfolding getMethodThatShouldBeAwaited_def Let_def
  by (simp split: if_splits) (metis isIdentifier_Some)+

lemma visit_gate:
  "isImportingFromStorybookExpect (visit st n) =
     (isImportingFromStorybookExpect st \<and> \<not> disqualifying_import n)"
proof (cases n)
  case (Node s r p)
  then show ?thesis
    by (cases s)
       (auto simp: on_ImportDeclaration_def on_CallExpression_def disqualifying_import_def
          isExpectFromStorybookImported_def split: option.splits)
qed

lemma visit_queue:
  "invocationsThatShouldBeAwaited (visit st n) = invocationsThatShouldBeAwaited st @ pending n"
proof (cases n)
  case (Node s r p)
  then show ?thesis
    by (cases s)
       (auto simp: on_ImportDeclaration_def on_CallExpression_def pending_def awaited_def
          split: option.splits)
qed

lemma foldl_visit_gate:
  "isImportingFromStorybookExpect (foldl visit st ns) =
     (isImportingFromStorybookExpect st \<and> list_all (\<lambda>n. \<not> disqualifying_import n) ns)"
  by (induction ns arbitrary: st) (auto simp: visit_gate)

lemma foldl_visit_queue:
  "invocationsThatShouldBeAwaited (foldl visit st ns) =
     invocationsThatShouldBeAwaited st @ concat (map pending ns)"
  by (induction ns arbitrary: st) (auto simp: visit_queue)

lemma lint_eq:
  "lint ns = (if list_all (\<lambda>n. \<not> disqualifying_import n) ns
              then map report_invocation (concat (map pending ns)) else [])"
  by (simp add: lint_def traverse_def on_Program_exit_def foldl_visit_gate foldl_visit_queue
        initial_state_def)

lemma getClosest_eq: "getClosestFunctionAncestor n = nearest_function_ancestor n"
proof (induction n rule: getClosestFunctionAncestor.induct)
  case (1 s r)
  then show ?case by (simp add: nearest_function_ancestor_def)
next
  case (2 s r p)
  then show ?case
    by (cases p) (auto simp: nearest_function_ancestor_def isFunctionLike_def)
qed

lemma rep_node_report [simp]: "rep_node (report_invocation i) = inv_node i"
  by (simp add: report_invocation_def Let_def)

lemma pending_cases:
  "pending n = [] \<or> (\<exists>m. pending n = [\<lparr>inv_node = n, inv_method = m\<rparr>])"
  by (simp add: pending_def split: option.split)

lemma inv_node_pending: "i \<in> set (pending n) \<Longrightarrow> inv_node i = n"
  using pending_cases [of n] by auto

lemma reported_nodes:
  "rep_node ` set (lint ns) =
     (if list_all (\<lambda>n. \<not> disqualifying_import n) ns then {n \<in> set ns. pending n \<noteq> []} else {})"
proof -
  have "inv_node ` (\<Union>n\<in>set ns. set (pending n)) = {n \<in> set ns. pending n \<noteq> []}"
  proof (intro set_eqI iffI)
    fix x assume "x \<in> inv_node ` (\<Union>n\<in>set ns. set (pending n))"
    then obtain n i where "n \<in> set ns" "i \<in> set (pending n)" "x = inv_node i" by auto
    then show "x \<in> {n \<in> set ns. pending n \<noteq> []}" using inv_node_pending by fastforce
  next
    fix x assume "x \<in> {n \<in> set ns. pending n \<noteq> []}"
    then obtain i where "x \<in> set ns" "i \<in> set (pending x)" by (cases "pending x") auto
    then show "x \<in> inv_node ` (\<Union>n\<in>set ns. set (pending n))"
      using inv_node_pending by fastforce
  qed
  then show ?thesis by (simp add: lint_eq image_image)
qed

lemma pending_classified:
  assumes "i \<in> set (pending n)"
  shows "getMethodThatShouldBeAwaited n = Some (inv_method i)"
proof (cases "getMethodThatShouldBeAwaited n")
  case None
  then have "pending n = []" by (simp add: pending_def)
  with assms show ?thesis by simp
next
  case (Some m)
  show ?thesis
  proof (cases "isCallExpression (Some (shape n)) \<and> \<not> awaited n")
    case True
    with Some have "pending n = [\<lparr>inv_node = n, inv_method = m\<rparr>]" by (simp add: pending_def)
    with assms Some show ?thesis by simp
  next
    case False
    with Some have "pending n = []" by (auto simp: pending_def)
    with assms show ?thesis by simp
  qed
qed

lemma queued_is_identifier:
  "i \<in> set (pending n) \<Longrightarrow> \<exists>s. inv_method i = Identifier s"
  using pending_classified classified_is_identifier by blast

lemma filter_eq_absent: "x \<notin> set xs \<Longrightarrow> filter (\<lambda>y. y = x) xs = []"
  by (induction xs) auto

lemma distinct_count_one:
  "distinct xs \<Longrightarrow> x \<in> set xs \<Longrightarrow> length (filter (\<lambda>y. y = x) xs) = 1"
  by (induction xs) (auto simp: filter_eq_absent)

lemma inv_nodes_of_walk:
  "map inv_node (concat (map pending ns)) = filter (\<lambda>n. pending n \<noteq> []) ns"
proof (induction ns)
  case Nil
  show ?case by simp
next
  case (Cons n ns)
  from pending_cases [of n] Cons show ?case by auto
qed

lemma count_by_anchor:
  "length (filter (\<lambda>r. rep_node r = x) (map report_invocation is))
     = length (filter (\<lambda>y. y = x) (map inv_node is))"
  by (induction "is") simp_all

section \<open>The properties\<close>

subsection \<open>Chained calls on \<open>expect(...)\<close>\<close>

text \<open>
  Claim C1 says that a call whose callee is a member access on a call of \<open>expect\<close> is
  classified only when the name of the accessed property is a tracked name, and that a
  chain ending in any other name is not classified. The statement
  \<open>expect(button).toBeVisible()\<close> of the sample file refutes it: \<open>toBeVisible\<close> is not a
  tracked name, and the classifier returns that identifier.
\<close>

theorem expect_chain_untracked_name_classified:
  "\<not> shouldAwait ''toBeVisible'' \<and>
   getMethodThatShouldBeAwaited expect_call = Some (Identifier ''toBeVisible'')"
  by (simp add: sample_defs rule_defs)

text \<open>
  Claim C1, amended: for every call expression whose callee is a member access with an
  identifier as property and a call of an identifier named \<open>expect\<close> as object, the
  classifier returns the property identifier whatever its name is, unless the call's parent
  is an arrow function or a return statement, where it returns nothing.
\<close>

theorem expect_chain_returns_property:
  assumes "shape expr =
             CallExpression (MemberExpression (CallExpression (Identifier ''expect'') eargs)
                               (Identifier p)) args"
  shows "getMethodThatShouldBeAwaited expr =
           (if isArrowFunctionExpression (parent_shape expr) \<or> isReturnStatement (parent_shape expr)
            then None else Some (Identifier p))"
  using assms by (simp add: getMethodThatShouldBeAwaited_def Let_def)

theorem expect_chain_returns_property_witness:
  "shape expect_call =
     CallExpression (MemberExpression (CallExpression (Identifier ''expect'') [Identifier ''button''])
                       (Identifier ''toBeVisible'')) []
   \<and> \<not> isArrowFunctionExpression (parent_shape expect_call)
   \<and> \<not> isReturnStatement (parent_shape expect_call)
   \<and> getMethodThatShouldBeAwaited expect_call = Some (Identifier ''toBeVisible'')"
proof -
  have h: "shape expect_call =
     CallExpression (MemberExpression (CallExpression (Identifier ''expect'') [Identifier ''button''])
                       (Identifier ''toBeVisible'')) []"
    by (simp add: expect_call_def)
  have p: "\<not> isArrowFunctionExpression (parent_shape expect_call)
           \<and> \<not> isReturnStatement (parent_shape expect_call)"
    by (simp add: expect_call_def parent_shape_def)
  from expect_chain_returns_property [OF h] h p show ?thesis by simp
qed

subsection \<open>The import gate\<close>

text \<open>
  Claim C2: if any import statement visited in a file has a source that does not start with
  \<open>@storybook/\<close>, the file gets no diagnostic at all, however many unawaited calls were
  queued, and wherever the import stands in the walk: the violations queued before it are
  dropped too.
\<close>

theorem import_gate_suppresses_all:
  assumes "n \<in> set ns" and "shape n = ImportDeclaration src"
    and "\<not> prefix ''@storybook/'' (val src)"
  shows "lint ns = []"
proof -
  from assms(2,3) have "disqualifying_import n" by (simp add: disqualifying_import_def)
  with assms(1) have "\<not> list_all (\<lambda>n. \<not> disqualifying_import n) ns"
    by (auto simp: list_all_iff)
  then show ?thesis by (simp add: lint_eq)
qed

text \<open>
  In the sample file the foreign import is the last statement; five violations are in the
  queue by then, and none is reported.
\<close>

theorem import_gate_suppresses_all_witness:
  "other_import \<in> set gated_walk
   \<and> shape other_import = ImportDeclaration (StringLiteral ''some-other-lib'')
   \<and> \<not> prefix ''@storybook/'' (val (StringLiteral ''some-other-lib''))
   \<and> map inv_node (invocationsThatShouldBeAwaited (traverse gated_walk))
       = [click_call, waitFor_call, expect_call, findBy_call, toplevel_play]
   \<and> lint gated_walk = []"
proof -
  have a: "other_import \<in> set gated_walk" by (simp add: gated_walk_def)
  have b: "shape other_import = ImportDeclaration (StringLiteral ''some-other-lib'')"
    by (simp add: other_import_def)
  have c: "\<not> prefix ''@storybook/'' (val (StringLiteral ''some-other-lib''))" by simp
  have d: "map inv_node (invocationsThatShouldBeAwaited (traverse gated_walk))
       = [click_call, waitFor_call, expect_call, findBy_call, toplevel_play]"
    by (simp add: sample_defs rule_defs)
  from import_gate_suppresses_all [OF a b c] a b c d show ?thesis by simp
qed

subsection \<open>Classification of tracked names\<close>

text \<open>
  Claim C3: a call whose callee is a bare identifier with a tracked name, or a member access
  whose property is an identifier with a tracked name (one of the fixed names, or a name
  starting with \<open>findBy\<close>), is classified: the classifier returns an identifier. The one
  exception is a call whose parent is an arrow function or a return statement, for which it
  returns nothing. \<open>shouldAwait\<close> is the tracked-name test of the source, on both shapes.
\<close>

theorem tracked_callee_classified:
  assumes "shape expr = CallExpression c args"
    and "(\<exists>nm. c = Identifier nm \<and> shouldAwait nm)
         \<or> (\<exists>obj nm. c = MemberExpression obj (Identifier nm) \<and> shouldAwait nm)"
  shows "if isArrowFunctionExpression (parent_shape expr) \<or> isReturnStatement (parent_shape expr)
         then getMethodThatShouldBeAwaited expr = None
         else \<exists>s. getMethodThatShouldBeAwaited expr = Some (Identifier s)"
proof -
  from assms(2) consider
      (ident) nm where "c = Identifier nm" "shouldAwait nm"
    | (member) obj nm where "c = MemberExpression obj (Identifier nm)" "shouldAwait nm"
    by blast
  then show ?thesis
  proof cases
    case (ident nm)
    with assms(1) show ?thesis by (simp add: getMethodThatShouldBeAwaited_def Let_def)
  next
    case (member obj nm)
    show ?thesis
      by (cases obj)
         (use assms(1) member in \<open>simp_all add: getMethodThatShouldBeAwaited_def Let_def\<close>)
  qed
qed

text \<open>
  \<open>canvas.findByRole('button')\<close> as a statement, the same call after \<open>return\<close>, and
  \<open>waitFor(() => {})\<close>.
\<close>

theorem tracked_callee_classified_witness:
  "shape findBy_call = CallExpression (MemberExpression (Identifier ''canvas'') (Identifier ''findByRole'')) [Other ''Literal'']
   \<and> shouldAwait ''findByRole''
   \<and> \<not> isArrowFunctionExpression (parent_shape findBy_call)
   \<and> \<not> isReturnStatement (parent_shape findBy_call)
   \<and> getMethodThatShouldBeAwaited findBy_call = Some (Identifier ''findByRole'')
   \<and> shape returned_findBy = shape findBy_call
   \<and> isReturnStatement (parent_shape returned_findBy)
   \<and> getMethodThatShouldBeAwaited returned_findBy = None
   \<and> shape waitFor_call = CallExpression (Identifier ''waitFor'') [ArrowFunctionExpression False]
   \<and> shouldAwait ''waitFor''
   \<and> getMethodThatShouldBeAwaited waitFor_call = Some (Identifier ''waitFor'')"
proof -
  let ?c = "MemberExpression (Identifier ''canvas'') (Identifier ''findByRole'')"
  have s1: "shape findBy_call = CallExpression ?c [Other ''Literal'']"
    by (simp add: findBy_call_def findBy_shape_def)
  have s2: "shape returned_findBy = CallExpression ?c [Other ''Literal'']"
    by (simp add: returned_findBy_def findBy_shape_def)
  have s3: "shape waitFor_call = CallExpression (Identifier ''waitFor'') [ArrowFunctionExpression False]"
    by (simp add: waitFor_call_def)
  have t1: "shouldAwait ''findByRole''" and t3: "shouldAwait ''waitFor''"
    by (simp_all add: shouldAwait_def FUNCTIONS_TO_BE_AWAITED_def)
  have h1: "(\<exists>nm. ?c = Identifier nm \<and> shouldAwait nm)
         \<or> (\<exists>obj nm. ?c = MemberExpression obj (Identifier nm) \<and> shouldAwait nm)"
    using t1 by simp
  have h3: "(\<exists>nm. Identifier ''waitFor'' = Identifier nm \<and> shouldAwait nm)
         \<or> (\<exists>obj nm. Identifier ''waitFor'' = MemberExpression obj (Identifier nm) \<and> shouldAwait nm)"
    using t3 by simp
  have p1: "\<not> isArrowFunctionExpression (parent_shape findBy_call)
            \<and> \<not> isReturnStatement (parent_shape findBy_call)"
    by (simp add: findBy_call_def parent_shape_def)
  have p2: "isReturnStatement (parent_shape returned_findBy)"
    by (simp add: returned_findBy_def parent_shape_def)
  have p3: "\<not> isArrowFunctionExpression (parent_shape waitFor_call)
            \<and> \<not> isReturnStatement (parent_shape waitFor_call)"
    by (simp add: waitFor_call_def parent_shape_def)
  have r1: "getMethodThatShouldBeAwaited findBy_call = Some (Identifier ''findByRole'')"
    using tracked_callee_classified [OF s1 h1] p1 by (simp add: sample_defs rule_defs)
  have r2: "getMethodThatShouldBeAwaited returned_findBy = None"
    using tracked_callee_classified [OF s2 h1] p2 by simp
  have r3: "getMethodThatShouldBeAwaited waitFor_call = Some (Identifier ''waitFor'')"
    using tracked_callee_classified [OF s3 h3] p3 by (simp add: sample_defs rule_defs)
  from s1 s2 s3 t1 t3 p1 p2 r1 r2 r3 show ?thesis by simp
qed

subsection \<open>Awaited calls\<close>

text \<open>
  Claim C4: a classified call is taken as awaited exactly when its parent or its grandparent
  is an await expression. The handler leaves the state as it is in exactly that case and
  appends the call to the queue otherwise; and the call is the anchor of a diagnostic of a
  walk exactly when the walk visits it as a call expression, no import closes the gate, and
  neither its parent nor its grandparent is an await expression.
\<close>

theorem awaited_iff_await_parent_or_grandparent:
  assumes "getMethodThatShouldBeAwaited n = Some m"
  shows "(on_CallExpression st n = st)
           = (isAwaitExpression (parent_shape n) \<or> isAwaitExpression (grandparent_shape n))
         \<and> (on_CallExpression st n \<noteq> st) =
             (on_CallExpression st n = st\<lparr>invocationsThatShouldBeAwaited :=
                 invocationsThatShouldBeAwaited st @ [\<lparr>inv_node = n, inv_method = m\<rparr>]\<rparr>)
         \<and> (n \<in> rep_node ` set (lint ns))
           = (n \<in> set ns \<and> isCallExpression (Some (shape n))
              \<and> list_all (\<lambda>x. \<not> disqualifying_import x) ns
              \<and> \<not> (isAwaitExpression (parent_shape n) \<or> isAwaitExpression (grandparent_shape n)))"
proof (intro conjI)
  have neq: "st\<lparr>invocationsThatShouldBeAwaited := invocationsThatShouldBeAwaited st @ [x]\<rparr> \<noteq> st" for x
  proof
    assume "st\<lparr>invocationsThatShouldBeAwaited := invocationsThatShouldBeAwaited st @ [x]\<rparr> = st"
    then have "invocationsThatShouldBeAwaited
                 (st\<lparr>invocationsThatShouldBeAwaited := invocationsThatShouldBeAwaited st @ [x]\<rparr>)
               = invocationsThatShouldBeAwaited st" by simp
    then show False by simp
  qed
  show "(on_CallExpression st n = st)
           = (isAwaitExpression (parent_shape n) \<or> isAwaitExpression (grandparent_shape n))"
    using assms neq by (auto simp: on_CallExpression_def)
  show "(on_CallExpression st n \<noteq> st) =
             (on_CallExpression st n = st\<lparr>invocationsThatShouldBeAwaited :=
                 invocationsThatShouldBeAwaited st @ [\<lparr>inv_node = n, inv_method = m\<rparr>]\<rparr>)"
    using assms neq neq [symmetric] by (auto simp: on_CallExpression_def)
  show "(n \<in> rep_node ` set (lint ns))
           = (n \<in> set ns \<and> isCallExpression (Some (shape n))
              \<and> list_all (\<lambda>x. \<not> disqualifying_import x) ns
              \<and> \<not> (isAwaitExpression (parent_shape n) \<or> isAwaitExpression (grandparent_shape n)))"
    using assms by (auto simp: reported_nodes pending_def awaited_def)
qed

theorem awaited_iff_await_parent_or_grandparent_witness:
  "getMethodThatShouldBeAwaited awaited_click = Some (Identifier ''userEvent'')
   \<and> isAwaitExpression (parent_shape awaited_click)
   \<and> on_CallExpression initial_state awaited_click = initial_state
   \<and> awaited_click \<notin> rep_node ` set (lint sample_walk)
   \<and> getMethodThatShouldBeAwaited click_call = Some (Identifier ''userEvent'')
   \<and> \<not> isAwaitExpression (parent_shape click_call)
   \<and> \<not> isAwaitExpression (grandparent_shape click_call)
   \<and> on_CallExpression initial_state click_call \<noteq> initial_state
   \<and> click_call \<in> rep_node ` set (lint sample_walk)"
proof -
  have c1: "getMethodThatShouldBeAwaited awaited_click = Some (Identifier ''userEvent'')"
    by (simp add: sample_defs rule_defs)
  have a1: "isAwaitExpression (parent_shape awaited_click)"
    by (simp add: awaited_click_def parent_shape_def)
  have c2: "getMethodThatShouldBeAwaited click_call = Some (Identifier ''userEvent'')"
    by (simp add: sample_defs rule_defs)
  have a2: "\<not> isAwaitExpression (parent_shape click_call)
            \<and> \<not> isAwaitExpression (grandparent_shape click_call)"
    by (simp add: sample_defs parent_shape_def grandparent_shape_def)
  have m: "click_call \<in> set sample_walk \<and> isCallExpression (Some (shape click_call))
           \<and> list_all (\<lambda>x. \<not> disqualifying_import x) sample_walk"
    by (simp add: sample_defs disqualifying_import_def)
  from awaited_iff_await_parent_or_grandparent [OF c1, of initial_state sample_walk]
       awaited_iff_await_parent_or_grandparent [OF c2, of initial_state sample_walk]
       c1 a1 c2 a2 m
  show ?thesis by simp
qed

text \<open>
  Claim C10: the grandparent test does not look at the node in between. A classified call
  whose grandparent is an await expression is never queued and never reported, whatever its
  parent is.
\<close>

theorem grandparent_await_any_parent:
  assumes "getMethodThatShouldBeAwaited n = Some m"
    and "parent n = Some p" and "parent p = Some g" and "shape g = AwaitExpression a"
  shows "on_CallExpression st n = st \<and> n \<notin> rep_node ` set (lint ns)"
proof -
  from assms(2-4) have "isAwaitExpression (grandparent_shape n)"
    by (simp add: grandparent_shape_def)
  then have aw: "awaited n" by (simp add: awaited_def)
  then have "pending n = []" by (simp add: pending_def split: option.splits)
  then have "n \<notin> rep_node ` set (lint ns)" by (simp add: reported_nodes)
  moreover from aw assms(1) have "on_CallExpression st n = st"
    by (simp add: on_CallExpression_def awaited_def)
  ultimately show ?thesis by simp
qed

text \<open>
  In \<open>await act(userEvent.click(button))\<close> the node between the inner call and the await
  is a call expression, not a non-null assertion.
\<close>

theorem grandparent_await_any_parent_witness:
  "getMethodThatShouldBeAwaited nested_click = Some (Identifier ''userEvent'')
   \<and> parent nested_click = Some act_call
   \<and> isCallExpression (Some (shape act_call))
   \<and> \<not> isTSNonNullExpression (Some (shape act_call))
   \<and> map_option shape (parent act_call) = Some (AwaitExpression act_shape)
   \<and> on_CallExpression initial_state nested_click = initial_state
   \<and> nested_click \<in> set sample_walk
   \<and> nested_click \<notin> rep_node ` set (lint sample_walk)"
proof -
  let ?g = "Node (AwaitExpression act_shape) (257, 291)
              (Some (Node (Other ''ExpressionStatement'') (257, 291) (Some check_body)))"
  have c: "getMethodThatShouldBeAwaited nested_click = Some (Identifier ''userEvent'')"
    by (simp add: sample_defs rule_defs)
  have p: "parent nested_click = Some act_call" by (simp add: nested_click_def)
  have g: "parent act_call = Some ?g" by (simp add: act_call_def)
  have s: "shape ?g = AwaitExpression act_shape" by simp
  have k: "isCallExpression (Some (shape act_call)) \<and> \<not> isTSNonNullExpression (Some (shape act_call))"
    by (simp add: act_call_def act_shape_def)
  have w: "nested_click \<in> set sample_walk" by (simp add: sample_walk_def)
  from grandparent_await_any_parent [OF c p g s, of initial_state sample_walk] c p g k w
  show ?thesis by simp
qed

subsection \<open>The diagnostics\<close>

text \<open>
  Claim C5: when no import closes the gate, every queued violation gets exactly one
  diagnostic. The diagnostics are the queue, entry by entry and in its order: the \<open>k\<close>-th
  one is anchored at the call of the \<open>k\<close>-th entry, its message is
  \<open>interactionShouldBeAwaited\<close> with the name of the matched identifier as data, it has
  the fix of that call, and one suggestion, \<open>fixSuggestion\<close>, whose fix is the same fix.
  In a walk that visits no node twice, exactly one diagnostic is anchored at each queued
  call.
\<close>

theorem one_diagnostic_per_queued_violation:
  assumes "list_all (\<lambda>n. \<not> disqualifying_import n) ns"
  shows "length (lint ns) = length (invocationsThatShouldBeAwaited (traverse ns))
       \<and> (\<forall>k < length (invocationsThatShouldBeAwaited (traverse ns)).
            \<exists>s. inv_method (invocationsThatShouldBeAwaited (traverse ns) ! k) = Identifier s
              \<and> rep_node (lint ns ! k) = inv_node (invocationsThatShouldBeAwaited (traverse ns) ! k)
              \<and> rep_messageId (lint ns ! k) = ''interactionShouldBeAwaited''
              \<and> rep_data_method (lint ns ! k) = s
              \<and> rep_fix (lint ns ! k)
                  = fixFn (rep_node (lint ns ! k)) (getClosestFunctionAncestor (rep_node (lint ns ! k)))
              \<and> rep_suggest (lint ns ! k)
                  = [\<lparr>sug_messageId = ''fixSuggestion'', sug_fix = rep_fix (lint ns ! k)\<rparr>])
       \<and> (distinct ns \<longrightarrow>
            (\<forall>i \<in> set (invocationsThatShouldBeAwaited (traverse ns)).
               length (filter (\<lambda>r. rep_node r = inv_node i) (lint ns)) = 1))"
proof -
  let ?q = "invocationsThatShouldBeAwaited (traverse ns)"
  have q: "?q = concat (map pending ns)"
    by (simp add: traverse_def foldl_visit_queue initial_state_def)
  have l: "lint ns = map report_invocation ?q"
    using assms by (simp add: lint_eq q)
  have len: "length (lint ns) = length ?q" by (simp add: l)
  have each: "\<exists>s. inv_method (?q ! k) = Identifier s
              \<and> rep_node (lint ns ! k) = inv_node (?q ! k)
              \<and> rep_messageId (lint ns ! k) = ''interactionShouldBeAwaited''
              \<and> rep_data_method (lint ns ! k) = s
              \<and> rep_fix (lint ns ! k)
                  = fixFn (rep_node (lint ns ! k)) (getClosestFunctionAncestor (rep_node (lint ns ! k)))
              \<and> rep_suggest (lint ns ! k)
                  = [\<lparr>sug_messageId = ''fixSuggestion'', sug_fix = rep_fix (lint ns ! k)\<rparr>]"
    if k: "k < length ?q" for k
  proof -
    from k have "?q ! k \<in> set (concat (map pending ns))" using q by (metis nth_mem)
    then obtain n where "?q ! k \<in> set (pending n)" by auto
    then obtain s where s: "inv_method (?q ! k) = Identifier s"
      using queued_is_identifier by blast
    from k have "lint ns ! k = report_invocation (?q ! k)" by (simp add: l)
    with s show ?thesis by (simp add: report_invocation_def Let_def)
  qed
  have once: "length (filter (\<lambda>r. rep_node r = inv_node i) (lint ns)) = 1"
    if d: "distinct ns" and i: "i \<in> set ?q" for i
  proof -
    let ?v = "filter (\<lambda>n. pending n \<noteq> []) ns"
    have "length (filter (\<lambda>r. rep_node r = inv_node i) (lint ns))
            = length (filter (\<lambda>y. y = inv_node i) ?v)"
      by (simp only: l count_by_anchor q inv_nodes_of_walk)
    moreover have "distinct ?v" using d by simp
    moreover have "inv_node i \<in> set ?v"
      using i inv_nodes_of_walk [of ns] q by (metis image_eqI set_map)
    ultimately show ?thesis using distinct_count_one [of ?v "inv_node i"] by presburger
  qed
  from len each once show ?thesis by blast
qed

theorem one_diagnostic_per_queued_violation_witness:
  "list_all (\<lambda>n. \<not> disqualifying_import n) sample_walk
   \<and> distinct sample_walk
   \<and> map inv_node (invocationsThatShouldBeAwaited (traverse sample_walk))
       = [click_call, waitFor_call, expect_call, findBy_call, toplevel_play]
   \<and> length (lint sample_walk) = 5
   \<and> map rep_node (lint sample_walk)
       = [click_call, waitFor_call, expect_call, findBy_call, toplevel_play]
   \<and> map rep_data_method (lint sample_walk)
       = [''userEvent'', ''waitFor'', ''toBeVisible'', ''findByRole'', ''play'']
   \<and> rep_suggest (lint sample_walk ! 0)
       = [\<lparr>sug_messageId = ''fixSuggestion'', sug_fix = rep_fix (lint sample_walk ! 0)\<rparr>]
   \<and> length (filter (\<lambda>r. rep_node r = click_call) (lint sample_walk)) = 1"
proof -
  let ?q = "invocationsThatShouldBeAwaited (traverse sample_walk)"
  have g: "list_all (\<lambda>n. \<not> disqualifying_import n) sample_walk"
    by (simp add: sample_defs disqualifying_import_def)
  have d: "distinct sample_walk" by (simp add: sample_defs)
  have q: "?q = [\<lparr>inv_node = click_call, inv_method = Identifier ''userEvent''\<rparr>,
                 \<lparr>inv_node = waitFor_call, inv_method = Identifier ''waitFor''\<rparr>,
                 \<lparr>inv_node = expect_call, inv_method = Identifier ''toBeVisible''\<rparr>,
                 \<lparr>inv_node = findBy_call, inv_method = Identifier ''findByRole''\<rparr>,
                 \<lparr>inv_node = toplevel_play, inv_method = Identifier ''play''\<rparr>]"
    by (simp add: sample_defs rule_defs)
  note t = one_diagnostic_per_queued_violation [OF g]
  from t have len: "length (lint sample_walk) = 5" by (simp add: q)
  from t have each: "\<forall>k<5. \<exists>s. inv_method (?q ! k) = Identifier s
              \<and> rep_node (lint sample_walk ! k) = inv_node (?q ! k)
              \<and> rep_data_method (lint sample_walk ! k) = s
              \<and> rep_suggest (lint sample_walk ! k)
                  = [\<lparr>sug_messageId = ''fixSuggestion'', sug_fix = rep_fix (lint sample_walk ! k)\<rparr>]"
    by (simp add: q)
  have k0: "rep_node (lint sample_walk ! 0) = click_call
            \<and> rep_data_method (lint sample_walk ! 0) = ''userEvent''
            \<and> rep_suggest (lint sample_walk ! 0)
                  = [\<lparr>sug_messageId = ''fixSuggestion'', sug_fix = rep_fix (lint sample_walk ! 0)\<rparr>]"
    using each [rule_format, of 0] by (auto simp: q)
  have m1: "map rep_node (lint sample_walk)
       = [click_call, waitFor_call, expect_call, findBy_call, toplevel_play]"
    by (simp add: sample_defs rule_defs)
  have m2: "map rep_data_method (lint sample_walk)
       = [''userEvent'', ''waitFor'', ''toBeVisible'', ''findByRole'', ''play'']"
    by (simp add: sample_defs rule_defs)
  from t d have "length (filter (\<lambda>r. rep_node r = inv_node (?q ! 0)) (lint sample_walk)) = 1"
    by (simp add: q)
  then have c: "length (filter (\<lambda>r. rep_node r = click_call) (lint sample_walk)) = 1"
    by (simp add: q)
  from g d q len m1 m2 k0 c show ?thesis by simp
qed

text \<open>
  Claim C6 says that the asynchronous marker is inserted before a function that is not
  asynchronous exactly once, even if its body holds several unawaited violations. The rule
  builds the fix of each queued violation on its own and shares nothing between them: the
  sample file has three violations in \<open>play\<close>, and the fixes of its diagnostics insert
  the marker before \<open>play\<close> three times.
\<close>

theorem async_marker_repeated_per_violation:
  "map rep_node (lint sample_walk)
     = [click_call, waitFor_call, expect_call, findBy_call, toplevel_play]
   \<and> getClosestFunctionAncestor click_call = Some play_fn
   \<and> getClosestFunctionAncestor waitFor_call = Some play_fn
   \<and> getClosestFunctionAncestor expect_call = Some play_fn
   \<and> \<not> async_flag (shape play_fn)
   \<and> length (filter (\<lambda>x. x = InsertTextBefore play_fn ''async '')
                (concat (map rep_fix (lint sample_walk)))) = 3"
  by (simp add: sample_defs rule_defs)

text \<open>
  Claim C6, amended: the fix of each reported violation whose nearest enclosing function
  exists and is not asynchronous is the insertion of \<open>await\<close> before the call followed
  by exactly one insertion of \<open>async\<close> before that function; the insertion belongs to
  that diagnostic alone, so the diagnostics of several violations in one function each carry
  it. Without an enclosing function, or with an asynchronous one, the fix is the insertion of
  \<open>await\<close> alone.
\<close>

theorem fix_marks_enclosing_function_once:
  assumes "r \<in> set (lint ns)"
  shows "(case getClosestFunctionAncestor (rep_node r) of
            None \<Rightarrow> rep_fix r = [InsertTextBefore (rep_node r) ''await '']
          | Some f \<Rightarrow>
              if async_flag (shape f)
              then rep_fix r = [InsertTextBefore (rep_node r) ''await '']
              else rep_fix r = [InsertTextBefore (rep_node r) ''await '',
                                InsertTextBefore f ''async '']
                   \<and> length (filter inserts_async (rep_fix r)) = 1)"
proof -
  from assms obtain i where "r = report_invocation i"
    by (auto simp: lint_eq split: if_splits)
  then have "rep_fix r = fixFn (rep_node r) (getClosestFunctionAncestor (rep_node r))"
    by (simp add: report_invocation_def Let_def)
  then show ?thesis
    by (simp add: fixFn_def parentFnNeedsAsync_def split: option.split)
qed

theorem fix_marks_enclosing_function_once_witness:
  "report_invocation \<lparr>inv_node = click_call, inv_method = Identifier ''userEvent''\<rparr>
     \<in> set (lint sample_walk)
   \<and> report_invocation \<lparr>inv_node = waitFor_call, inv_method = Identifier ''waitFor''\<rparr>
     \<in> set (lint sample_walk)
   \<and> getClosestFunctionAncestor click_call = Some play_fn
   \<and> getClosestFunctionAncestor waitFor_call = Some play_fn
   \<and> \<not> async_flag (shape play_fn)
   \<and> rep_fix (report_invocation \<lparr>inv_node = click_call, inv_method = Identifier ''userEvent''\<rparr>)
       = [InsertTextBefore click_call ''await '', InsertTextBefore play_fn ''async '']
   \<and> rep_fix (report_invocation \<lparr>inv_node = waitFor_call, inv_method = Identifier ''waitFor''\<rparr>)
       = [InsertTextBefore waitFor_call ''await '', InsertTextBefore play_fn ''async '']
   \<and> report_invocation \<lparr>inv_node = findBy_call, inv_method = Identifier ''findByRole''\<rparr>
     \<in> set (lint sample_walk)
   \<and> getClosestFunctionAncestor findBy_call = Some check_fn
   \<and> async_flag (shape check_fn)
   \<and> rep_fix (report_invocation \<lparr>inv_node = findBy_call, inv_method = Identifier ''findByRole''\<rparr>)
       = [InsertTextBefore findBy_call ''await '']
   \<and> report_invocation \<lparr>inv_node = toplevel_play, inv_method = Identifier ''play''\<rparr>
     \<in> set (lint sample_walk)
   \<and> getClosestFunctionAncestor toplevel_play = None
   \<and> rep_fix (report_invocation \<lparr>inv_node = toplevel_play, inv_method = Identifier ''play''\<rparr>)
       = [InsertTextBefore toplevel_play ''await '']"
proof -
  let ?r1 = "report_invocation \<lparr>inv_node = click_call, inv_method = Identifier ''userEvent''\<rparr>"
  let ?r2 = "report_invocation \<lparr>inv_node = waitFor_call, inv_method = Identifier ''waitFor''\<rparr>"
  let ?r3 = "report_invocation \<lparr>inv_node = findBy_call, inv_method = Identifier ''findByRole''\<rparr>"
  let ?r4 = "report_invocation \<lparr>inv_node = toplevel_play, inv_method = Identifier ''play''\<rparr>"
  have l: "lint sample_walk =
             [?r1, ?r2,
              report_invocation \<lparr>inv_node = expect_call, inv_method = Identifier ''toBeVisible''\<rparr>,
              ?r3, ?r4]"
    by (simp add: sample_defs getMethodThatShouldBeAwaited_def shouldAwait_def
          FUNCTIONS_TO_BE_AWAITED_def parent_shape_def grandparent_shape_def
          on_CallExpression_def on_ImportDeclaration_def isExpectFromStorybookImported_def
          on_Program_exit_def traverse_def lint_def initial_state_def Let_def)
  have m1: "?r1 \<in> set (lint sample_walk)" and m2: "?r2 \<in> set (lint sample_walk)"
    and m3: "?r3 \<in> set (lint sample_walk)" and m4: "?r4 \<in> set (lint sample_walk)"
    by (simp_all add: l)
  have f1: "getClosestFunctionAncestor click_call = Some play_fn"
    and f2: "getClosestFunctionAncestor waitFor_call = Some play_fn"
    and f3: "getClosestFunctionAncestor findBy_call = Some check_fn"
    and f4: "getClosestFunctionAncestor toplevel_play = None"
    by (simp_all add: sample_defs)
  have a1: "\<not> async_flag (shape play_fn)" and a3: "async_flag (shape check_fn)"
    by (simp_all add: play_fn_def check_fn_def)
  from fix_marks_enclosing_function_once [OF m1] f1 a1
  have x1: "rep_fix ?r1 = [InsertTextBefore click_call ''await '', InsertTextBefore play_fn ''async '']"
    by simp
  from fix_marks_enclosing_function_once [OF m2] f2 a1
  have x2: "rep_fix ?r2 = [InsertTextBefore waitFor_call ''await '', InsertTextBefore play_fn ''async '']"
    by simp
  from fix_marks_enclosing_function_once [OF m3] f3 a3
  have x3: "rep_fix ?r3 = [InsertTextBefore findBy_call ''await '']"
    by simp
  from fix_marks_enclosing_function_once [OF m4] f4
  have x4: "rep_fix ?r4 = [InsertTextBefore toplevel_play ''await '']"
    by simp
  from m1 m2 m3 m4 f1 f2 f3 f4 a1 a3 x1 x2 x3 x4 show ?thesis by simp
qed

subsection \<open>Running the rule again on the fixed file\<close>




subsection \<open>The scope resolver\<close>

text \<open>
  Claim C7: \<open>getClosestFunctionAncestor\<close> returns nothing for a node without a parent;
  for a node with a parent it returns nothing when the parent is the program root, the
  parent when that is an arrow function, a function expression or a function declaration,
  and what it returns for the parent otherwise. So its result is the nearest function-like
  ancestor, through any number of nodes in between, or nothing when the program root or the
  end of the chain comes first.
\<close>

theorem closest_function_ancestor_walk:
  "(parent n = None \<longrightarrow> getClosestFunctionAncestor n = None)
   \<and> (\<forall>p. parent n = Some p \<longrightarrow>
          getClosestFunctionAncestor n =
            (if isProgram (Some (shape p)) then None
             else if isArrowFunctionExpression (Some (shape p))
                     \<or> isFunctionExpression (Some (shape p))
                     \<or> isFunctionDeclaration (Some (shape p))
             then Some p
             else getClosestFunctionAncestor p))
   \<and> getClosestFunctionAncestor n = nearest_function_ancestor n"
proof -
  obtain s r q where n: "n = Node s r q" by (cases n)
  show ?thesis
    by (cases q) (simp_all add: n getClosest_eq [symmetric])
qed

theorem closest_function_ancestor_walk_witness:
  "parent program_root = None
   \<and> getClosestFunctionAncestor program_root = None
   \<and> parent toplevel_play
       = Some (Node (Other ''ExpressionStatement'') (324, 330) (Some program_root))
   \<and> getClosestFunctionAncestor toplevel_play = None
   \<and> parent play_body = Some play_fn
   \<and> getClosestFunctionAncestor play_body = Some play_fn
   \<and> parent click_call
       = Some (Node (Other ''ExpressionStatement'') (84, 107) (Some play_body))
   \<and> getClosestFunctionAncestor click_call = Some play_fn
   \<and> nearest_function_ancestor click_call = Some play_fn"
proof -
  let ?s = "Node (Other ''ExpressionStatement'') (84, 107) (Some play_body)"
  let ?t = "Node (Other ''ExpressionStatement'') (324, 330) (Some program_root)"
  have p0: "parent program_root = None" by (simp add: program_root_def)
  have p1: "parent toplevel_play = Some ?t" by (simp add: toplevel_play_def)
  have p2: "parent play_body = Some play_fn" by (simp add: play_body_def)
  have p3: "parent click_call = Some ?s" by (simp add: click_call_def)
  have p4: "parent ?s = Some play_body" and p5: "parent ?t = Some program_root"
    by simp_all
  have k: "shape play_fn = ArrowFunctionExpression False" "shape play_body = Other ''BlockStatement''"
    "shape program_root = Program"
    by (simp_all add: play_fn_def play_body_def program_root_def)
  from closest_function_ancestor_walk [of program_root] p0
  have r0: "getClosestFunctionAncestor program_root = None" by simp
  from closest_function_ancestor_walk [of ?t] p5 k
  have "getClosestFunctionAncestor ?t = None" by simp
  with closest_function_ancestor_walk [of toplevel_play] p1
  have r1: "getClosestFunctionAncestor toplevel_play = None" by simp
  from closest_function_ancestor_walk [of play_body] p2 k
  have r2: "getClosestFunctionAncestor play_body = Some play_fn" by simp
  from closest_function_ancestor_walk [of ?s] p4 k r2
  have "getClosestFunctionAncestor ?s = Some play_fn" by simp
  with closest_function_ancestor_walk [of click_call] p3
  have r3: "getClosestFunctionAncestor click_call = Some play_fn" by simp
  with closest_function_ancestor_walk [of click_call]
  have r4: "nearest_function_ancestor click_call = Some play_fn" by simp
  from p0 p1 p2 p3 r0 r1 r2 r3 r4 show ?thesis by simp
qed

subsection \<open>The gate flag\<close>

text \<open>
  Claim C8: the gate flag starts as true, and once it is false no handler sets it back: it
  is false after either handler, after the visit of any node, and after any further walk.
\<close>

theorem gate_flag_only_downgrades:
  "isImportingFromStorybookExpect initial_state
   \<and> (\<not> isImportingFromStorybookExpect st \<longrightarrow>
        \<not> isImportingFromStorybookExpect (on_ImportDeclaration st n)
        \<and> \<not> isImportingFromStorybookExpect (on_CallExpression st n)
        \<and> \<not> isImportingFromStorybookExpect (visit st n)
        \<and> \<not> isImportingFromStorybookExpect (foldl visit st ns))"
  by (simp add: initial_state_def on_ImportDeclaration_def on_CallExpression_def visit_gate
        foldl_visit_gate split: option.split)

theorem gate_flag_only_downgrades_witness:
  "isImportingFromStorybookExpect initial_state
   \<and> \<not> isImportingFromStorybookExpect (visit initial_state other_import)
   \<and> \<not> isImportingFromStorybookExpect
         (on_ImportDeclaration (visit initial_state other_import) storybook_import)
   \<and> \<not> isImportingFromStorybookExpect
         (on_CallExpression (visit initial_state other_import) click_call)
   \<and> \<not> isImportingFromStorybookExpect
         (foldl visit (visit initial_state other_import) sample_walk)"
proof -
  have h: "\<not> isImportingFromStorybookExpect (visit initial_state other_import)"
    by (simp add: other_import_def on_ImportDeclaration_def isExpectFromStorybookImported_def
          initial_state_def)
  from gate_flag_only_downgrades [of "visit initial_state other_import" storybook_import sample_walk]
       gate_flag_only_downgrades [of "visit initial_state other_import" click_call sample_walk] h
  show ?thesis by simp
qed

end
